theory Spec2Isabelle
  imports Complex_Main
begin

section \<open>Values\<close>

text \<open>
  TSTS.py computes on NumPy arrays of binary64 numbers. The embedding takes the finite
  numbers as reals and the arithmetic on them as exact. Two things of the floating-point
  world are kept, because the code's results depend on them:
  \<^item> a frequency axis can hold \<open>inf\<close>, \<open>-inf\<close> and \<open>nan\<close> (\<open>np.fft.fftfreq\<close> divides by
    a sample spacing that is zero when all selected times are equal), so the frequency
    axis has the type \<open>npfloat\<close>;
  \<^item> a decimal literal of the source denotes the binary64 number Python reads for it;
    the literals of the window functions are written out below.
  The exceptions of the modelled code are Python's IndexError and, from reading a file,
  OSError.
\<close>

datatype error = IndexError | OSError

datatype npfloat = Fin real | PInf | NInf | NaN

text \<open>\<open>1.0 / x\<close> on a NumPy scalar: a warning and \<open>inf\<close> at \<open>x = 0.0\<close>, never an exception.\<close>

definition fl_recip :: "real \<Rightarrow> npfloat" where
  "fl_recip x = (if x = 0 then PInf else Fin (1 / x))"

text \<open>An integer array times a scalar: \<open>0 * inf\<close> is \<open>nan\<close>.\<close>

fun fl_scale :: "int \<Rightarrow> npfloat \<Rightarrow> npfloat" where
  "fl_scale k (Fin v) = Fin (real_of_int k * v)"
| "fl_scale k PInf = (if k = 0 then NaN else if 0 < k then PInf else NInf)"
| "fl_scale k NInf = (if k = 0 then NaN else if 0 < k then NInf else PInf)"
| "fl_scale k NaN = NaN"

text \<open>The comparison \<open>x > 0\<close>; every comparison with \<open>nan\<close> is false.\<close>

fun fl_pos :: "npfloat \<Rightarrow> bool" where
  "fl_pos (Fin r) = (0 < r)"
| "fl_pos PInf = True"
| "fl_pos NInf = False"
| "fl_pos NaN = False"

text \<open>The comparison \<open>a < b\<close> of two entries.\<close>

fun fl_less :: "npfloat \<Rightarrow> npfloat \<Rightarrow> bool" where
  "fl_less (Fin a) (Fin b) = (a < b)"
| "fl_less (Fin a) PInf = True"
| "fl_less NInf (Fin b) = True"
| "fl_less NInf PInf = True"
| "fl_less _ _ = False"

text \<open>Division of an entry by a positive finite constant (\<open>data[:,0] /= 1E6\<close>).\<close>

fun fl_div :: "npfloat \<Rightarrow> real \<Rightarrow> npfloat" where
  "fl_div (Fin r) c = Fin (r / c)"
| "fl_div PInf c = PInf"
| "fl_div NInf c = NInf"
| "fl_div NaN c = NaN"

section \<open>NumPy operations used by the program\<close>

text \<open>Boolean-mask indexing \<open>arr[mask]\<close>: the entries at the positions where the mask holds
  (the source's \<open>mask\<close> is written \<open>msk\<close>, the name being taken in HOL).\<close>

definition bool_index :: "'a list \<Rightarrow> bool list \<Rightarrow> 'a list" where
  "bool_index arr msk = map fst (filter snd (zip arr msk))"

text \<open>Python's builtin \<open>min\<close> and \<open>max\<close>, iterating a non-empty sequence.\<close>

definition py_min :: "real list \<Rightarrow> real" where
  "py_min xs = foldl min (hd xs) (tl xs)"

definition py_max :: "real list \<Rightarrow> real" where
  "py_max xs = foldl max (hd xs) (tl xs)"

text \<open>
  \<open>np.ceil(np.log2(n))\<close> for a length \<open>n \<ge> 1\<close>, computed by halving; \<open>ceil_log2_log\<close>
  below shows it is the ceiling of the real logarithm.
\<close>

fun ceil_log2 :: "nat \<Rightarrow> nat" where
  "ceil_log2 n = (if n \<le> 1 then 0 else Suc (ceil_log2 ((n + 1) div 2)))"

declare ceil_log2.simps [simp del]

text \<open>
  \<open>2**np.ceil(np.log2(n))\<close>. At \<open>n = 0\<close> NumPy gives \<open>log2(0) = -inf\<close> with a warning,
  \<open>ceil(-inf) = -inf\<close> and \<open>2**(-inf) = 0.0\<close>.
\<close>

definition pow2_ceil_log2 :: "nat \<Rightarrow> nat" where
  "pow2_ceil_log2 n = (if n = 0 then 0 else 2 ^ ceil_log2 n)"

text \<open>
  \<open>np.linspace(start, stop, num, endpoint=False)\<close>: \<open>num\<close> values from \<open>start\<close> in steps
  of \<open>(stop - start) / num\<close>.
\<close>

definition linspace :: "real \<Rightarrow> real \<Rightarrow> nat \<Rightarrow> real list" where
  "linspace start stop num =
     map (\<lambda>i. start + real i * ((stop - start) / real num)) [0..<num]"

text \<open>
  \<open>np.pad(a, (0, w), "linear_ramp", end_values=(0, e))\<close> on a non-empty array: the right
  ramp is NumPy's \<open>linspace(start=e, stop=edge, num=w, endpoint=False)\<close> reversed, where
  the edge is the last entry of \<open>a\<close>.
\<close>

definition pad_linear_ramp :: "real list \<Rightarrow> nat \<Rightarrow> real \<Rightarrow> real list" where
  "pad_linear_ramp a w e = a @ rev (linspace e (last a) w)"

text \<open>\<open>np.pad(a, (0, w), "constant", constant_values=(0, c))\<close>.\<close>

definition pad_constant :: "real list \<Rightarrow> nat \<Rightarrow> real \<Rightarrow> real list" where
  "pad_constant a w c = a @ replicate w c"

text \<open>
  \<open>np.fft.fftfreq(n, d)\<close>: \<open>val = 1.0 / (n * d)\<close>, the integers \<open>0 .. (n-1)//2\<close> followed
  by \<open>-(n//2) .. -1\<close>, each times \<open>val\<close>.
\<close>

definition fftfreq :: "nat \<Rightarrow> real \<Rightarrow> npfloat list" where
  "fftfreq n d =
     (let val = fl_recip (real n * d);
          N = nat ((int n - 1) div 2 + 1);
          p1 = map int [0..<N];
          p2 = map (\<lambda>j. int j - int (n div 2)) [0..<n div 2]
      in map (\<lambda>k. fl_scale k val) (p1 @ p2))"

text \<open>\<open>np.fft.fft\<close>: the forward discrete Fourier transform.\<close>

definition fft :: "real list \<Rightarrow> complex list" where
  "fft a =
     (let n = length a
      in map (\<lambda>k. \<Sum>m<n. of_real (a ! m) * cis (- 2 * pi * real m * real k / real n)) [0..<n])"

subsection \<open>Window functions\<close>

text \<open>
  The literals of \<open>np.hamming\<close> and \<open>np.blackman\<close> as the binary64 numbers they denote
  (\<open>0.5\<close> is exact).
\<close>

definition lit_0_54 :: real where "lit_0_54 = 607985949695017 / 2 ^ 50"
definition lit_0_46 :: real where "lit_0_46 = 8286623314361713 / 2 ^ 54"
definition lit_0_42 :: real where "lit_0_42 = 7566047373982433 / 2 ^ 54"
definition lit_0_08 :: real where "lit_0_08 = 5764607523034235 / 2 ^ 56"

text \<open>\<open>np.arange(1-M, M, 2)\<close>: the \<open>M\<close> numbers \<open>1-M, 3-M, ..., M-1\<close>.\<close>

definition arange_sym :: "nat \<Rightarrow> real list" where
  "arange_sym M = map (\<lambda>i. 1 - real M + 2 * real i) [0..<M]"

text \<open>
  The four NumPy windows share their guards: an empty array for \<open>M < 1\<close>, \<open>ones(1)\<close> for
  \<open>M = 1\<close>, and otherwise a formula in \<open>n\<close> over \<open>arange(1-M, M, 2)\<close> and \<open>M - 1\<close>.
\<close>

definition taper :: "(real \<Rightarrow> real \<Rightarrow> real) \<Rightarrow> nat \<Rightarrow> real list" where
  "taper f M =
     (if M < 1 then [] else if M = 1 then [1]
      else map (\<lambda>n. f n (real M - 1)) (arange_sym M))"

definition hanning :: "nat \<Rightarrow> real list" where
  "hanning = taper (\<lambda>n M1. 0.5 + 0.5 * cos (pi * n / M1))"

definition hamming :: "nat \<Rightarrow> real list" where
  "hamming = taper (\<lambda>n M1. lit_0_54 + lit_0_46 * cos (pi * n / M1))"

definition bartlett :: "nat \<Rightarrow> real list" where
  "bartlett = taper (\<lambda>n M1. if n \<le> 0 then 1 + n / M1 else 1 - n / M1)"

definition blackman :: "nat \<Rightarrow> real list" where
  "blackman =
     taper (\<lambda>n M1. lit_0_42 + 0.5 * cos (pi * n / M1) + lit_0_08 * cos (2 * pi * n / M1))"

section \<open>The signal pipeline of TSTS.py\<close>

text \<open>
  A loaded dataset is the two-column array read from the file: a list of rows
  (time, amplitude). \<open>data[:, 0]\<close> and \<open>data[:, 1]\<close> are its columns.
\<close>

type_synonym dataset = "(real \<times> real) list"

text \<open>
  \<open>zeropadding\<close>. The argument \<open>xs[-1] + num_add*dt\<close> is evaluated before \<open>np.pad\<close> is
  called, and \<open>xs[-1]\<close> raises IndexError on an empty array.
\<close>

definition zeropadding :: "real list \<Rightarrow> real list \<Rightarrow> error + (real list \<times> real list)" where
  "zeropadding xs ys =
     (let num_add = pow2_ceil_log2 (length xs) - length xs;
          dt = (if length xs > 1 then xs ! 1 - xs ! 0 else 0)
      in if xs = [] then Inl IndexError
         else Inr (pad_linear_ramp xs num_add (last xs + real num_add * dt),
                   pad_constant ys num_add 0))"

text \<open>The dictionary \<open>functions\<close> of \<open>calc_window\<close>.\<close>

definition window_functions :: "string \<Rightarrow> (nat \<Rightarrow> real list) option" where
  "window_functions =
     [''hanning'' \<mapsto> hanning, ''blackman'' \<mapsto> blackman,
      ''hamming'' \<mapsto> hamming, ''bartlett'' \<mapsto> bartlett]"

definition calc_window :: "string \<Rightarrow> real list \<Rightarrow> real list" where
  "calc_window windowtype ys =
     (case window_functions windowtype of
        Some f \<Rightarrow> f (length ys)
      | None \<Rightarrow> replicate (length ys) 1)"

text \<open>
  The range filter of \<open>calc_fft\<close> (the mask and the two masked columns), as the code
  computes it.
\<close>

definition range_mask :: "real list \<Rightarrow> real \<times> real \<Rightarrow> bool list" where
  "range_mask time_xs fft_range =
     (let (fft_min, fft_max) = fft_range
      in map (\<lambda>t. t > fft_min \<and> t < fft_max) time_xs)"

definition range_filter :: "dataset \<Rightarrow> real \<times> real \<Rightarrow> real list \<times> real list" where
  "range_filter d fft_range =
     (let time_xs = map fst d; time_ys = map snd d;
          msk = range_mask time_xs fft_range
      in (bool_index time_xs msk, bool_index time_ys msk))"

text \<open>The spectrum of a non-empty (filtered, possibly padded) series: the \<open>if N:\<close> branch.\<close>

definition spectrum :: "real list \<Rightarrow> real list \<Rightarrow> real list \<Rightarrow> npfloat list \<times> real list" where
  "spectrum xs ys window =
     (let N = length xs;
          spec_xs = fftfreq N ((py_min xs - py_max xs) / real N);
          spec_ys = fft (map2 (*) ys window);
          msk = map fl_pos spec_xs
      in (bool_index spec_xs msk, map cmod (bool_index spec_ys msk)))"

definition calc_fft ::
  "dataset option \<Rightarrow> real \<times> real \<Rightarrow> string \<Rightarrow> bool \<Rightarrow>
   error + (real list \<times> real list \<times> npfloat list \<times> real list)" where
  "calc_fft data fft_range windowtype zeropad =
     (case data of
        None \<Rightarrow> Inr ([], [], [], [])
      | Some d \<Rightarrow>
          (let time_xs = map fst d; time_ys = map snd d in
           case (if zeropad
                 then zeropadding (fst (range_filter d fft_range)) (snd (range_filter d fft_range))
                 else Inr (range_filter d fft_range)) of
             Inl e \<Rightarrow> Inl e
           | Inr (xs, ys) \<Rightarrow>
               (let window = calc_window windowtype ys in
                if length xs \<noteq> 0
                then (let (spec_xs, spec_ys) = spectrum xs ys window
                      in Inr (time_xs, time_ys, spec_xs, spec_ys))
                else Inr (time_xs, time_ys, [], []))))"

section \<open>Saving a spectrum\<close>

text \<open>
  \<open>os.path.splitext\<close> (the POSIX version): \<open>p.rfind(c)\<close> is the highest index of \<open>c\<close> in
  \<open>p\<close>, or \<open>-1\<close>; the extension starts at the last dot of the last path component, unless
  only dots precede it there.
\<close>

definition rfind :: "string \<Rightarrow> char \<Rightarrow> int" where
  "rfind p c =
     (case filter (\<lambda>i. p ! i = c) (rev [0..<length p]) of
        [] \<Rightarrow> - 1
      | i # _ \<Rightarrow> int i)"

function skip_dots :: "string \<Rightarrow> nat \<Rightarrow> nat \<Rightarrow> string \<times> string" where
  "skip_dots p filenameIndex dotIndex =
     (if filenameIndex < dotIndex
      then (if p ! filenameIndex \<noteq> CHR ''.''
            then (take dotIndex p, drop dotIndex p)
            else skip_dots p (Suc filenameIndex) dotIndex)
      else (p, []))"
  by pat_completeness auto
termination
  by (relation "measure (\<lambda>(p, filenameIndex, dotIndex). dotIndex - filenameIndex)") auto

declare skip_dots.simps [simp del]

definition splitext :: "string \<Rightarrow> string \<times> string" where
  "splitext p =
     (let sepIndex = rfind p CHR ''/'';
          dotIndex = rfind p CHR ''.''
      in if dotIndex > sepIndex
         then skip_dots p (nat (sepIndex + 1)) (nat dotIndex)
         else (p, []))"

text \<open>Python's \<open>str\<close> of a bool, as an f-string formats it.\<close>

definition str_bool :: "bool \<Rightarrow> string" where
  "str_bool b = (if b then ''True'' else ''False'')"

text \<open>
  A spectrum is the array \<open>spec_data\<close>: rows (frequency, magnitude). What \<open>np.savetxt\<close>
  receives is recorded as a \<open>saved_file\<close>: the path, the header text and the rows.
\<close>

type_synonym spectrum_data = "(npfloat \<times> real) list"

record saved_file =
  path :: string
  header :: string
  rows :: spectrum_data

text \<open>
  \<open>save_data\<close>. The statement \<open>data[:,0] /= 1E6\<close> divides the first column of the array it
  was handed, in place: NumPy arrays are passed by reference, so the caller's array is
  the one changed. The model returns the array after the call next to the file written.
  How Python prints the range (\<open>str\<close> of a list or tuple of numbers) is the parameter
  \<open>show_range\<close>.
\<close>

definition save_data ::
  "(real \<times> real \<Rightarrow> string) \<Rightarrow> spectrum_data \<Rightarrow> string \<Rightarrow> real \<times> real \<Rightarrow> string \<Rightarrow> bool \<Rightarrow>
   spectrum_data \<times> saved_file" where
  "save_data show_range dat fname0 rng win zp =
     (let dat' = map (\<lambda>(f, m). (fl_div f 1000000, m)) dat;
          hdr = ''Range of window: '' @ show_range rng @ [CHR 0x0A] @
                ''Windowfunction: '' @ win @ [CHR 0x0A] @
                ''Zeropadding: '' @ str_bool zp;
          (fname, extension) = splitext fname0
      in (dat', \<lparr>path = fname @ ''FFT'' @ extension, header = hdr, rows = dat'\<rparr>))"

section \<open>The interactive session\<close>

text \<open>
  The globals of \<open>fft_timesignal\<close> and the state of its widgets, with a log of what was
  written. Axis limits, the title and the redraw request only concern the display and
  are left out, so \<open>update_plot\<close> has no \<open>force_rescale\<close> argument here.
\<close>

record session =
  data :: "dataset option"
  filename :: string
  fft_range :: "real \<times> real"
  spec_data :: spectrum_data
  window :: string
  zeropad :: bool
  window_button :: string
  zeropad_button :: bool
  rescale_button :: bool
  span_visible :: bool
  ax0_line :: "real list \<times> real list"
  ax1_line :: "npfloat list \<times> real list"
  written :: "saved_file list"
  figures :: "string list"
  closed :: bool

text \<open>
  What the session needs from outside: the file reader (\<open>np.genfromtxt\<close>, which may
  fail) and the printing of a range.
\<close>

record env =
  genfromtxt :: "string \<Rightarrow> error + dataset"
  show_range :: "real \<times> real \<Rightarrow> string"

text \<open>\<open>get_file\<close>, given the name the dialog (or the prompt) returned.\<close>

definition get_file :: "env \<Rightarrow> string \<Rightarrow> error + (dataset option \<times> string)" where
  "get_file e chosen =
     (if chosen = [] then Inr (None, chosen)
      else case genfromtxt e chosen of
             Inl err \<Rightarrow> Inl err
           | Inr d \<Rightarrow> Inr (Some d, chosen))"

definition update_plot :: "session \<Rightarrow> error + session" where
  "update_plot s =
     (let s1 = s\<lparr>window := window_button s, zeropad := zeropad_button s\<rparr> in
      case calc_fft (data s1) (fft_range s1) (window s1) (zeropad s1) of
        Inl err \<Rightarrow> Inl err
      | Inr (xs, ys, spec_xs, spec_ys) \<Rightarrow>
          Inr (s1\<lparr>spec_data := zip spec_xs spec_ys,
                  ax0_line := (xs, ys), ax1_line := (spec_xs, spec_ys)\<rparr>))"

definition onselect :: "real \<Rightarrow> real \<Rightarrow> session \<Rightarrow> error + session" where
  "onselect xmin xmax s = update_plot (s\<lparr>fft_range := (xmin, xmax)\<rparr>)"

text \<open>
  \<open>press\<close>. \<open>chosen\<close> is the name a file dialog returns, for the two keys that open one.
  The key \<open>enter\<close> hands the global \<open>spec_data\<close> itself to \<open>save_data\<close>.
\<close>

definition press :: "env \<Rightarrow> string \<Rightarrow> string \<Rightarrow> session \<Rightarrow> error + session" where
  "press e chosen key s =
     (if key = ''enter'' then
        (let (dat', f) = save_data (show_range e) (spec_data s) (filename s) (fft_range s)
                           (window_button s) (zeropad_button s)
         in Inr (s\<lparr>spec_data := dat', written := written s @ [f]\<rparr>))
      else if key = ''esc'' then Inr (s\<lparr>closed := True\<rparr>)
      else if key = ''ctrl+r'' then
        (case onselect 0 0 (s\<lparr>span_visible := False\<rparr>) of
           Inl err \<Rightarrow> Inl err
         | Inr s1 \<Rightarrow> update_plot s1)
      else if key = ''ctrl+s'' then
        Inr (s\<lparr>filename := chosen, figures := figures s @ [chosen]\<rparr>)
      else if key = ''ctrl+o'' then
        (case get_file e chosen of
           Inl err \<Rightarrow> Inl err
         | Inr (d, fname) \<Rightarrow> update_plot (s\<lparr>data := d, filename := fname\<rparr>))
      else Inr s)"

text \<open>The clicks on the three option widgets: the widget changes, then \<open>update_plot\<close>.\<close>

definition click_window :: "string \<Rightarrow> session \<Rightarrow> error + session" where
  "click_window label s = update_plot (s\<lparr>window_button := label\<rparr>)"

definition click_zeropad :: "session \<Rightarrow> error + session" where
  "click_zeropad s = update_plot (s\<lparr>zeropad_button := (\<not> zeropad_button s)\<rparr>)"

definition click_rescale :: "session \<Rightarrow> error + session" where
  "click_rescale s = update_plot (s\<lparr>rescale_button := (\<not> rescale_button s)\<rparr>)"

text \<open>
  The start of \<open>fft_timesignal\<close>, up to \<open>plt.show()\<close>: the range is set to \<open>[0, 0]\<close>, the
  first file is asked for, the widgets get their initial values (\<open>hanning\<close>, rescale on,
  zeropad off) and \<open>update_plot\<close> runs once.
\<close>

definition fft_timesignal :: "env \<Rightarrow> string \<Rightarrow> error + session" where
  "fft_timesignal e chosen =
     (case get_file e chosen of
        Inl err \<Rightarrow> Inl err
      | Inr (d, fname) \<Rightarrow>
          update_plot
            \<lparr>data = d, filename = fname, fft_range = (0, 0), spec_data = [],
             window = [], zeropad = False,
             window_button = ''hanning'', zeropad_button = False, rescale_button = True,
             span_visible = False, ax0_line = ([], []), ax1_line = ([], []),
             written = [], figures = [], closed = False\<rparr>)"

text \<open>
  After \<open>plt.show()\<close> the event loop calls the handlers one after the other. A run is
  the start followed by a list of handlers; it ends at the first exception.
\<close>

fun run_events :: "(session \<Rightarrow> error + session) list \<Rightarrow> session \<Rightarrow> error + session" where
  "run_events [] s = Inr s"
| "run_events (h # hs) s = (case h s of Inl err \<Rightarrow> Inl err | Inr s' \<Rightarrow> run_events hs s')"

definition start_then ::
  "env \<Rightarrow> string \<Rightarrow> (session \<Rightarrow> error + session) list \<Rightarrow> error + session" where
  "start_then e chosen hs =
     (case fft_timesignal e chosen of Inl err \<Rightarrow> Inl err | Inr s \<Rightarrow> run_events hs s)"

section \<open>A sample recording\<close>

text \<open>
  Five samples at the times 0, 1, 2, 3, 4 with the amplitudes 0, 1, 0, -1, 0, used to
  evaluate the definitions on concrete input.
\<close>

definition demo_data :: dataset where
  "demo_data = [(0, 0), (1, 1), (2, 0), (3, - 1), (4, 0)]"

text \<open>An environment in which every file holds the five samples and a range prints as \<open>r\<close>.\<close>

definition demo_env :: env where
  "demo_env = \<lparr>genfromtxt = (\<lambda>name. Inr demo_data), show_range = (\<lambda>rng. ''r'')\<rparr>"

section \<open>The range filter\<close>

subsection \<open>Masks\<close>

lemma bool_index_map: "bool_index (map f d) (map Q d) = map f (filter Q d)"
  by (induction d) (simp_all add: bool_index_def)

lemma bool_index_self: "bool_index xs (map Q xs) = filter Q xs"
  using bool_index_map [of "\<lambda>x. x" xs Q] by simp

lemma range_filter_eq:
  "range_filter d (lo, hi) =
     (map fst (filter (\<lambda>(t, a). lo < t \<and> t < hi) d), map snd (filter (\<lambda>(t, a). lo < t \<and> t < hi) d))"
proof -
  have m: "range_mask (map fst d) (lo, hi) = map (\<lambda>(t, a). lo < t \<and> t < hi) d"
    by (simp add: range_mask_def case_prod_beta)
  show ?thesis
    by (simp add: range_filter_def Let_def m bool_index_map)
qed

subsection \<open>The samples selected\<close>

text \<open>
  Claim C7. For every time series and every selection range (min, max), the range filter
  returns exactly the samples whose time is strictly greater than min and strictly less
  than max, in their order; when max is not above min, and for an empty series, the
  result is empty.
\<close>

theorem range_filter_spec:
  "zip (fst (range_filter d (lo, hi))) (snd (range_filter d (lo, hi))) =
     filter (\<lambda>(t, a). lo < t \<and> t < hi) d \<and>
   (hi \<le> lo \<longrightarrow> range_filter d (lo, hi) = ([], [])) \<and>
   (d = [] \<longrightarrow> range_filter d (lo, hi) = ([], []))"
proof -
  have "zip (map fst l) (map snd l) = l" for l :: "(real \<times> real) list"
    by (simp add: zip_map_fst_snd)
  moreover have "hi \<le> lo \<Longrightarrow> filter (\<lambda>(t, a). lo < t \<and> t < hi) d = []"
    by (auto simp: filter_empty_conv)
  ultimately show ?thesis
    by (auto simp: range_filter_eq)
qed

theorem range_filter_spec_witness:
  "zip (fst (range_filter demo_data (1 / 2, 7 / 2))) (snd (range_filter demo_data (1 / 2, 7 / 2))) =
     [(1, 1), (2, 0), (3, - 1)] \<and>
   range_filter demo_data (3, 3) = ([], []) \<and>
   range_filter [] (0, 1) = ([], [])"
  using range_filter_spec [of demo_data "1 / 2" "7 / 2"] range_filter_spec [of demo_data 3 3]
    range_filter_spec [of "[]" 0 1]
  by (simp add: demo_data_def)

section \<open>Zero-padding\<close>

subsection \<open>The power of two above a length\<close>

lemma ceil_log2_bounds: "0 < n \<Longrightarrow> n \<le> 2 ^ ceil_log2 n \<and> (ceil_log2 n \<noteq> 0 \<longrightarrow> 2 ^ (ceil_log2 n - 1) < n)"
proof (induction n rule: ceil_log2.induct)
  case (1 n)
  show ?case
  proof (cases "n \<le> 1")
    case True
    with 1(2) show ?thesis by (simp add: ceil_log2.simps)
  next
    case False
    let ?m = "(n + 1) div 2"
    from False have m: "0 < ?m" by simp
    from 1(1) [OF False m] have ih: "?m \<le> 2 ^ ceil_log2 ?m" "ceil_log2 ?m \<noteq> 0 \<longrightarrow> 2 ^ (ceil_log2 ?m - 1) < ?m" by auto
    have c: "ceil_log2 n = Suc (ceil_log2 ?m)" using False by (subst ceil_log2.simps) simp
    have a: "n \<le> 2 ^ ceil_log2 n" using ih(1) c by simp
    have b: "2 ^ (ceil_log2 n - 1) < n"
    proof (cases "ceil_log2 ?m = 0")
      case True
      then show ?thesis using c False by simp
    next
      case F: False
      then obtain k where k: "ceil_log2 ?m = Suc k" by (cases "ceil_log2 ?m") auto
      with ih(2) have "2 ^ k < ?m" by simp
      then have "2 * 2 ^ k < n" by simp
      then show ?thesis using c k by simp
    qed
    show ?thesis using a b by simp
  qed
qed

lemma ceil_log2_least: "0 < n \<Longrightarrow> n \<le> 2 ^ k \<Longrightarrow> ceil_log2 n \<le> k"
proof (rule ccontr)
  assume n: "0 < n" and le: "n \<le> 2 ^ k" and "\<not> ceil_log2 n \<le> k"
  then have k: "k \<le> ceil_log2 n - 1" and nz: "ceil_log2 n \<noteq> 0" by auto
  from k have "(2::nat) ^ k \<le> 2 ^ (ceil_log2 n - 1)" by (rule power_increasing) simp
  moreover from ceil_log2_bounds [OF n] nz have "2 ^ (ceil_log2 n - 1) < n" by blast
  ultimately have "2 ^ k < n" by (rule le_less_trans)
  with le show False by simp
qed

lemma ceil_log2_pow: "ceil_log2 (2 ^ k) = k"
proof -
  have "ceil_log2 (2 ^ k) \<le> k" by (rule ceil_log2_least) simp_all
  moreover have "(2::nat) ^ k \<le> 2 ^ ceil_log2 (2 ^ k)" using ceil_log2_bounds [of "2 ^ k"] by simp
  then have "k \<le> ceil_log2 (2 ^ k)" by simp
  ultimately show ?thesis by simp
qed

lemma ceil_log2_log: "0 < n \<Longrightarrow> int (ceil_log2 n) = \<lceil>log 2 (real n)\<rceil>"
proof (cases "ceil_log2 n")
  case 0
  assume "0 < n"
  with ceil_log2_bounds [of n] 0 have "n = 1" by simp
  with 0 show ?thesis by simp
next
  case (Suc k)
  assume n: "0 < n"
  from ceil_log2_bounds [OF n] Suc have "2 ^ k < n" "n \<le> 2 ^ (k + 1)" by simp_all
  then have "\<lceil>log (real 2) (real n)\<rceil> = int k + 1"
    by (rule ceiling_log_nat_eq_if) simp
  with Suc show ?thesis by simp
qed

subsection \<open>Padding\<close>

lemma linspace_length: "length (linspace a b n) = n"
  by (simp add: linspace_def)

lemma ramp_nth:
  assumes "j < w"
  shows "rev (linspace (l + real w * dt) l w) ! j = l + real (j + 1) * dt"
proof -
  from assms have w: "real w \<noteq> 0" by simp
  have step: "(l - (l + real w * dt)) / real w = - dt" using w by simp
  have idx: "w - Suc j < w" using assms by simp
  have "rev (linspace (l + real w * dt) l w) ! j = linspace (l + real w * dt) l w ! (w - Suc j)"
    using assms by (simp add: rev_nth linspace_length)
  also have "\<dots> = l + real w * dt + real (w - Suc j) * (- dt)"
    using idx by (simp add: linspace_def step)
  also have "\<dots> = l + real (j + 1) * dt"
  proof -
    have "real (w - Suc j) = real w - real (j + 1)" using assms by (simp add: of_nat_diff)
    then show ?thesis by (simp add: algebra_simps)
  qed
  finally show ?thesis .
qed

lemma zeropadding_nonempty:
  "xs \<noteq> [] \<Longrightarrow>
   zeropadding xs ys =
     Inr (xs @ rev (linspace (last xs + real (2 ^ ceil_log2 (length xs) - length xs) *
                       (if 1 < length xs then xs ! 1 - xs ! 0 else 0)) (last xs)
                       (2 ^ ceil_log2 (length xs) - length xs)),
          ys @ replicate (2 ^ ceil_log2 (length xs) - length xs) 0)"
  by (simp add: zeropadding_def Let_def pow2_ceil_log2_def pad_linear_ramp_def pad_constant_def)

lemma zeropadding_empty: "zeropadding [] ys = Inl IndexError"
  by (simp add: zeropadding_def)

subsection \<open>The padded sequences\<close>

text \<open>
  Claim C6. For sequences xs and ys of equal length N \<open>\<ge>\<close> 1, \<open>zeropadding\<close> returns two
  sequences whose length is the next power of two at or above N (so nothing is added when
  N is a power of two); the first N entries are the inputs, every appended y is zero, the
  appended x values continue from the last x in steps of dt = xs[1] - xs[0] (dt = 0 when
  N = 1), and the last appended x is xs[-1] + pad_count * dt. The exponent \<open>ceil_log2 N\<close>
  is the ceiling of the logarithm (\<open>ceil_log2_log\<close>); the theorem states that it is the
  least exponent whose power of two reaches N.
\<close>

theorem zeropadding_spec:
  assumes "length xs = length ys" and "1 \<le> length xs"
  shows "\<exists>xs' ys'. zeropadding xs ys = Inr (xs', ys') \<and>
     length xs' = 2 ^ ceil_log2 (length xs) \<and> length ys' = 2 ^ ceil_log2 (length xs) \<and>
     length xs \<le> 2 ^ ceil_log2 (length xs) \<and>
     (\<forall>k. length xs \<le> 2 ^ k \<longrightarrow> ceil_log2 (length xs) \<le> k) \<and>
     ((\<exists>k. length xs = 2 ^ k) \<longrightarrow> xs' = xs \<and> ys' = ys) \<and>
     take (length xs) xs' = xs \<and> take (length xs) ys' = ys \<and>
     (\<forall>j. length xs + j < length xs' \<longrightarrow>
        ys' ! (length xs + j) = 0 \<and>
        xs' ! (length xs + j) =
          last xs + real (j + 1) * (if 1 < length xs then xs ! 1 - xs ! 0 else 0)) \<and>
     (length xs < length xs' \<longrightarrow>
        last xs' = last xs + real (length xs' - length xs) *
                     (if 1 < length xs then xs ! 1 - xs ! 0 else 0))"
proof -
  define N where "N = length xs"
  define w where "w = 2 ^ ceil_log2 N - N"
  define dt where "dt = (if 1 < N then xs ! 1 - xs ! 0 else 0)"
  define xs' where "xs' = xs @ rev (linspace (last xs + real w * dt) (last xs) w)"
  define ys' where "ys' = ys @ replicate w (0::real)"
  from assms have ne: "xs \<noteq> []" and N: "0 < N" and lys: "length ys = N"
    by (auto simp: N_def)
  have le: "N \<le> 2 ^ ceil_log2 N" using ceil_log2_bounds [OF N] by simp
  have z: "zeropadding xs ys = Inr (xs', ys')"
    using zeropadding_nonempty [OF ne, of ys] by (simp add: xs'_def ys'_def w_def dt_def N_def)
  have lx: "length xs' = 2 ^ ceil_log2 N"
    using le by (simp add: xs'_def linspace_length w_def N_def)
  have ly: "length ys' = 2 ^ ceil_log2 N" using le lys by (simp add: ys'_def w_def)
  have least: "\<forall>k. N \<le> 2 ^ k \<longrightarrow> ceil_log2 N \<le> k" using ceil_log2_least [OF N] by blast
  have pow: "(\<exists>k. N = 2 ^ k) \<longrightarrow> xs' = xs \<and> ys' = ys"
  proof
    assume "\<exists>k. N = 2 ^ k"
    then obtain k where "N = 2 ^ k" ..
    then have "w = 0" by (simp add: w_def ceil_log2_pow)
    then show "xs' = xs \<and> ys' = ys" by (simp add: xs'_def ys'_def linspace_def)
  qed
  have tk: "take N xs' = xs" "take N ys' = ys" using lys by (simp_all add: xs'_def ys'_def N_def)
  have pad: "\<forall>j. N + j < length xs' \<longrightarrow>
        ys' ! (N + j) = 0 \<and> xs' ! (N + j) = last xs + real (j + 1) * dt"
  proof (intro allI impI)
    fix j assume "N + j < length xs'"
    then have j: "j < w" by (simp add: xs'_def linspace_length N_def)
    have "ys' ! (N + j) = 0" using j lys by (simp add: ys'_def nth_append)
    moreover have "xs' ! (N + j) = last xs + real (j + 1) * dt"
      using ramp_nth [OF j, of "last xs" dt] by (simp add: xs'_def nth_append N_def)
    ultimately show "ys' ! (N + j) = 0 \<and> xs' ! (N + j) = last xs + real (j + 1) * dt" ..
  qed
  have lst: "N < length xs' \<longrightarrow> last xs' = last xs + real (length xs' - N) * dt"
  proof
    assume lt: "N < length xs'"
    then have w: "0 < w" and lw: "length xs' = N + w"
      by (simp_all add: xs'_def linspace_length N_def)
    have nonempty: "xs' \<noteq> []" using ne by (simp add: xs'_def)
    have e: "length xs' - 1 = N + (w - 1)" using w lw by simp
    have "N + (w - 1) < length xs'" using w lw by simp
    with pad have "xs' ! (N + (w - 1)) = last xs + real ((w - 1) + 1) * dt" by blast
    moreover have "(w - 1) + 1 = length xs' - N" using w lw by simp
    ultimately have "xs' ! (N + (w - 1)) = last xs + real (length xs' - N) * dt" by metis
    moreover have "last xs' = xs' ! (N + (w - 1))" using last_conv_nth [OF nonempty] e by simp
    ultimately show "last xs' = last xs + real (length xs' - N) * dt" by (simp only:)
  qed
  show ?thesis
    using z lx ly le least pow tk pad lst unfolding N_def [symmetric] dt_def [symmetric]
    by blast
qed

theorem zeropadding_spec_witness:
  "length [0, 1, 2 :: real] = length [5, 6, 7 :: real] \<and> 1 \<le> length [0, 1, 2 :: real] \<and>
   zeropadding [0, 1, 2] [5, 6, 7] = Inr ([0, 1, 2, 3], [5, 6, 7, 0]) \<and>
   ceil_log2 (length [0, 1, 2 :: real]) = 2"
  using zeropadding_spec [of "[0, 1, 2]" "[5, 6, 7]"]
  by (simp add: zeropadding_nonempty ceil_log2.simps linspace_def)

section \<open>Windowing\<close>

subsection \<open>Bounds of the weights\<close>

lemma taper_length: "length (taper f M) = M"
  by (simp add: taper_def arange_sym_def)

lemma arange_sym_bounds:
  assumes "n \<in> set (arange_sym M)" and "1 < M"
  shows "- 1 \<le> n / (real M - 1) \<and> n / (real M - 1) \<le> 1"
proof -
  from assms obtain i where i: "i < M" and n: "n = 1 - real M + 2 * real i"
    by (auto simp: arange_sym_def)
  have pos: "0 < real M - 1" using assms(2) by simp
  have "- (real M - 1) \<le> n" using n by simp
  moreover have "n \<le> real M - 1"
  proof -
    from i have "real i \<le> real M - 1" by (simp add: Suc_le_eq [symmetric] of_nat_diff) 
    then show ?thesis using n by simp
  qed
  ultimately show ?thesis using pos by (simp add: pos_le_divide_eq pos_divide_le_eq)
qed

lemma taper_bound:
  assumes "\<And>n. n \<in> set (arange_sym M) \<Longrightarrow> 1 < M \<Longrightarrow> c \<le> f n (real M - 1)" and "c \<le> 1"
    and "x \<in> set (taper f M)"
  shows "c \<le> x"
  using assms by (auto simp: taper_def split: if_splits)

lemma hanning_nonneg: "x \<in> set (hanning M) \<Longrightarrow> 0 \<le> x"
proof (erule taper_bound [rotated 2, of _ "\<lambda>n M1. 0.5 + 0.5 * cos (pi * n / M1)", folded hanning_def])
  fix n :: real
  have "- 1 \<le> cos (pi * n / (real M - 1))" by simp
  then show "0 \<le> 0.5 + 0.5 * cos (pi * n / (real M - 1))" by argo
qed simp

lemma hamming_nonneg: "x \<in> set (hamming M) \<Longrightarrow> 0 \<le> x"
proof (erule taper_bound [rotated 2, of _ "\<lambda>n M1. lit_0_54 + lit_0_46 * cos (pi * n / M1)", folded hamming_def])
  fix n :: real
  have c: "- 1 \<le> cos (pi * n / (real M - 1))" by simp
  have "0 \<le> lit_0_46" by (simp add: lit_0_46_def)
  then have "lit_0_46 * (- 1) \<le> lit_0_46 * cos (pi * n / (real M - 1))"
    using c by (rule mult_left_mono [rotated])
  moreover have "0 \<le> lit_0_54 - lit_0_46" by (simp add: lit_0_54_def lit_0_46_def)
  ultimately show "0 \<le> lit_0_54 + lit_0_46 * cos (pi * n / (real M - 1))" by simp
qed simp

lemma bartlett_nonneg: "x \<in> set (bartlett M) \<Longrightarrow> 0 \<le> x"
proof (erule taper_bound [rotated 2, of _ "\<lambda>n M1. if n \<le> 0 then 1 + n / M1 else 1 - n / M1", folded bartlett_def])
  fix n :: real
  assume "n \<in> set (arange_sym M)" and "1 < M"
  then have "- 1 \<le> n / (real M - 1) \<and> n / (real M - 1) \<le> 1" by (rule arange_sym_bounds)
  then show "0 \<le> (if n \<le> 0 then 1 + n / (real M - 1) else 1 - n / (real M - 1))" by simp
qed simp

lemma blackman_poly:
  fixes c :: real
  assumes "- 1 \<le> c"
  shows "- (1 / 2 ^ 56) \<le> lit_0_42 + 0.5 * c + lit_0_08 * (2 * c\<^sup>2 - 1)"
proof -
  have e: "a + 0.5 * c + b * (2 * c\<^sup>2 - 1) = (c + 1) * (2 * b * (c - 1) + 1 / 2) + (a + b - 1 / 2)"
    for a b :: real
    by (simp add: algebra_simps power2_eq_square)
  have k: "lit_0_42 + lit_0_08 - 1 / 2 = - (1 / 2 ^ 56)"
    by (simp add: lit_0_42_def lit_0_08_def)
  have "0 \<le> 2 * lit_0_08 * (c - 1) + 1 / 2"
  proof -
    have "2 * lit_0_08 * (- 2) \<le> 2 * lit_0_08 * (c - 1)"
      using assms by (intro mult_left_mono) (simp_all add: lit_0_08_def)
    moreover have "0 \<le> 2 * lit_0_08 * (- 2) + 1 / 2" by (simp add: lit_0_08_def)
    ultimately show ?thesis by linarith
  qed
  moreover have "0 \<le> c + 1" using assms by simp
  ultimately have "0 \<le> (c + 1) * (2 * lit_0_08 * (c - 1) + 1 / 2)"
    by (rule mult_nonneg_nonneg [rotated])
  with e [of lit_0_42 lit_0_08] k show ?thesis by linarith
qed

lemma blackman_bound: "x \<in> set (blackman M) \<Longrightarrow> - (1 / 2 ^ 56) \<le> x"
proof (erule taper_bound [rotated 2, of _ "\<lambda>n M1. lit_0_42 + 0.5 * cos (pi * n / M1) + lit_0_08 * cos (2 * pi * n / M1)", folded blackman_def])
  fix n :: real
  let ?t = "pi * n / (real M - 1)"
  have "2 * pi * n / (real M - 1) = 2 * ?t" by simp
  then have "cos (2 * pi * n / (real M - 1)) = 2 * (cos ?t)\<^sup>2 - 1" by (simp only: cos_double_cos)
  moreover have "- 1 \<le> cos ?t" by simp
  ultimately show "- (1 / 2 ^ 56) \<le> lit_0_42 + 0.5 * cos ?t + lit_0_08 * cos (2 * pi * n / (real M - 1))"
    using blackman_poly [of "cos ?t"] by simp
qed simp

lemma calc_window_cases:
  "calc_window w ys =
     (if w = ''hanning'' then hanning (length ys)
      else if w = ''blackman'' then blackman (length ys)
      else if w = ''hamming'' then hamming (length ys)
      else if w = ''bartlett'' then bartlett (length ys)
      else replicate (length ys) 1)"
  by (simp add: calc_window_def window_functions_def)

lemma calc_window_length: "length (calc_window w ys) = length ys"
  by (simp add: calc_window_cases hanning_def blackman_def hamming_def bartlett_def taper_length)

subsection \<open>The weights returned\<close>

text \<open>
  Claim C8, as amended. For every window name and every length N, \<open>calc_window\<close> returns
  exactly N weights. They are non-negative for every name but \<open>blackman\<close>, whose weights
  are at least \<open>-2\<^sup>-\<^sup>5\<^sup>6\<close>; for \<open>boxcar\<close> and every unrecognized name all N weights are 1.
\<close>

theorem calc_window_weights:
  "length (calc_window w ys) = length ys \<and>
   (w \<noteq> ''blackman'' \<longrightarrow> (\<forall>x\<in>set (calc_window w ys). 0 \<le> x)) \<and>
   (\<forall>x\<in>set (calc_window w ys). - (1 / 2 ^ 56) \<le> x) \<and>
   (w \<notin> {''hanning'', ''blackman'', ''hamming'', ''bartlett''} \<longrightarrow>
      calc_window w ys = replicate (length ys) 1)"
proof -
  have neg: "- (1 / 2 ^ 56) \<le> x" if "0 \<le> x" for x :: real
    using that by (rule order_trans [rotated]) simp
  have a: "w \<noteq> ''blackman'' \<longrightarrow> (\<forall>x\<in>set (calc_window w ys). 0 \<le> x)"
    by (auto simp: calc_window_cases dest: hanning_nonneg hamming_nonneg bartlett_nonneg)
  have b: "\<forall>x\<in>set (calc_window w ys). - (1 / 2 ^ 56) \<le> x"
  proof (cases "w = ''blackman''")
    case True
    then show ?thesis by (auto simp: calc_window_cases dest: blackman_bound)
  next
    case False
    with a neg show ?thesis by blast
  qed
  have c: "w \<notin> {''hanning'', ''blackman'', ''hamming'', ''bartlett''} \<longrightarrow>
      calc_window w ys = replicate (length ys) 1"
    by (simp add: calc_window_cases)
  from calc_window_length a b c show ?thesis by blast
qed

text \<open>
  The window \<open>hanning\<close> of length 3 is 0, 1, 0; the name \<open>boxcar\<close> and a name never heard
  of give ones.
\<close>

theorem calc_window_weights_witness:
  "calc_window ''hanning'' [7, 8, 9] = [0, 1, 0] \<and>
   calc_window ''boxcar'' [7, 8, 9] = [1, 1, 1] \<and>
   calc_window ''kaiser'' [7, 8] = [1, 1] \<and>
   (\<exists>x\<in>set (calc_window ''blackman'' [7, 8]). - (1 / 2 ^ 56) \<le> x)"
  using calc_window_weights [of "''hanning''" "[7, 8, 9]"]
    calc_window_weights [of "''boxcar''" "[7, 8, 9]"]
    calc_window_weights [of "''kaiser''" "[7, 8]"]
    calc_window_weights [of "''blackman''" "[7, 8]"]
  by (simp add: calc_window_cases hanning_def blackman_def taper_def arange_sym_def
      upt_conv_Cons lit_0_42_def lit_0_08_def)

text \<open>
  The claim as written fails for \<open>blackman\<close>: at the two ends of the window the formula
  is \<open>0.42 - 0.5 + 0.08\<close>, and on the binary64 values of the literals that is \<open>-2\<^sup>-\<^sup>5\<^sup>6\<close>
  (about \<open>-1.39e-17\<close>, the first entry of \<open>np.blackman(M)\<close> for every M above 1).
\<close>

theorem calc_window_blackman_counterexample:
  "calc_window ''blackman'' [7, 8] = [- (1 / 2 ^ 56), - (1 / 2 ^ 56)] \<and>
   calc_window ''blackman'' [7, 8] ! 0 < 0"
  by (simp add: calc_window_cases blackman_def taper_def arange_sym_def upt_conv_Cons
      lit_0_42_def lit_0_08_def)

section \<open>The spectrum engine\<close>

subsection \<open>The frequency axis\<close>

lemma foldl_min_fold: "foldl min (a::real) l = fold min l a"
  by (induction l arbitrary: a) (simp_all add: min.commute)

lemma foldl_max_fold: "foldl max (a::real) l = fold max l a"
  by (induction l arbitrary: a) (simp_all add: max.commute)

lemma py_min_Min: "xs \<noteq> [] \<Longrightarrow> py_min xs = Min (set xs)"
proof (cases xs)
  case (Cons a l)
  have "py_min xs = fold min l a" by (simp add: Cons py_min_def foldl_min_fold)
  also have "\<dots> = Min (set (a # l))" by (rule Min.set_eq_fold [symmetric])
  finally show ?thesis by (simp add: Cons)
qed simp

lemma py_max_Max: "xs \<noteq> [] \<Longrightarrow> py_max xs = Max (set xs)"
proof (cases xs)
  case (Cons a l)
  have "py_max xs = fold max l a" by (simp add: Cons py_max_def foldl_max_fold)
  also have "\<dots> = Max (set (a # l))" by (rule Max.set_eq_fold [symmetric])
  finally show ?thesis by (simp add: Cons)
qed simp

lemma py_min_le_max: "xs \<noteq> [] \<Longrightarrow> py_min xs \<le> py_max xs"
  by (simp add: py_min_Min py_max_Max)

lemma py_min_eq_max_iff:
  assumes "xs \<noteq> []"
  shows "py_min xs = py_max xs \<longleftrightarrow> (\<forall>t\<in>set xs. t = hd xs)"
proof
  assume e: "py_min xs = py_max xs"
  show "\<forall>t\<in>set xs. t = hd xs"
  proof
    fix t assume t: "t \<in> set xs"
    have b: "Min (set xs) \<le> u \<and> u \<le> Max (set xs)" if "u \<in> set xs" for u
      using that by simp
    have h: "hd xs \<in> set xs" using assms by simp
    have "Min (set xs) = Max (set xs)" using e assms by (simp add: py_min_Min py_max_Max)
    with b [OF t] b [OF h] show "t = hd xs" by linarith
  qed
next
  assume a: "\<forall>t\<in>set xs. t = hd xs"
  then have "set xs = {hd xs}" using assms by (cases xs) auto
  then show "py_min xs = py_max xs" using assms by (simp add: py_min_Min py_max_Max)
qed

lemma fftfreq_length: "0 < n \<Longrightarrow> length (fftfreq n d) = n"
  by (simp add: fftfreq_def Let_def nat_add_distrib)

lemma fl_pos_scale_neg: "v < 0 \<Longrightarrow> fl_pos (fl_scale k (Fin v)) \<longleftrightarrow> k < 0"
  by (simp add: zero_less_mult_iff)

lemma fl_pos_scale_inf: "fl_pos (fl_scale k PInf) \<Longrightarrow> fl_scale k PInf = PInf"
  by (simp split: if_splits)

lemma fftfreq_pos_neg_spacing:
  assumes "real n * d < 0"
  shows "filter fl_pos (fftfreq n d) =
           map (\<lambda>j. Fin (real_of_int (int j - int (n div 2)) * (1 / (real n * d)))) [0..<n div 2]"
proof -
  define v where "v = 1 / (real n * d)"
  from assms have v: "v < 0" by (simp add: v_def)
  have nz: "real n * d \<noteq> 0" using assms by linarith
  have val: "fl_recip (real n * d) = Fin v" by (simp only: fl_recip_def nz if_False v_def)
  have p1: "filter (fl_pos \<circ> (\<lambda>k. fl_scale k (Fin v)) \<circ> int) l = []" for l
    by (simp add: filter_empty_conv fl_pos_scale_neg [OF v] del: fl_scale.simps)
  have p2: "filter (fl_pos \<circ> (\<lambda>k. fl_scale k (Fin v)) \<circ> (\<lambda>j. int j - int (n div 2)))
              [0..<n div 2] = [0..<n div 2]"
    by (simp add: filter_id_conv fl_pos_scale_neg [OF v] del: fl_scale.simps)
  have "fftfreq n d =
          map (\<lambda>k. fl_scale k (Fin v))
            (map int [0..<nat ((int n - 1) div 2 + 1)] @
             map (\<lambda>j. int j - int (n div 2)) [0..<n div 2])"
    by (simp only: fftfreq_def Let_def val)
  then have "filter fl_pos (fftfreq n d) =
          map (\<lambda>k. fl_scale k (Fin v)) (map (\<lambda>j. int j - int (n div 2)) [0..<n div 2])"
    by (simp only: filter_map filter_append map_append p1 p2 append_Nil list.map)
  then show ?thesis by (simp add: v_def)
qed

lemma fftfreq_pos_zero_spacing:
  assumes "real n * d = 0" and "f \<in> set (filter fl_pos (fftfreq n d))"
  shows "f = PInf"
proof -
  have val: "fl_recip (real n * d) = PInf" using assms(1) by (simp add: fl_recip_def)
  from assms(2) have pos: "fl_pos f" by simp
  from assms(2) have "f \<in> set (fftfreq n d)" by simp
  then obtain k where "f = fl_scale k PInf"
    unfolding fftfreq_def Let_def val set_map by blast
  with pos fl_pos_scale_inf [of k] show ?thesis by simp
qed

lemma decreasing_bins:
  assumes "(v::real) < 0"
  shows "sorted_wrt (\<lambda>a b. fl_less b a) (map (\<lambda>j. Fin (real_of_int (int j - int m) * v)) [0..<m])"
proof -
  have "sorted_wrt (<) [0..<m]" by simp
  then have "sorted_wrt (\<lambda>i j. fl_less (Fin (real_of_int (int j - int m) * v))
                                       (Fin (real_of_int (int i - int m) * v))) [0..<m]"
  proof (rule sorted_wrt_mono_rel [rotated])
    fix i j :: nat assume "i < j"
    then have "real_of_int (int i - int m) < real_of_int (int j - int m)" by simp
    then show "fl_less (Fin (real_of_int (int j - int m) * v)) (Fin (real_of_int (int i - int m) * v))"
      using assms by (simp add: mult_less_cancel_right)
  qed
  then show ?thesis by (simp add: sorted_wrt_map)
qed

subsection \<open>The pipeline\<close>

lemma spectrum_fst:
  "fst (spectrum xs ys win) =
     filter fl_pos (fftfreq (length xs) ((py_min xs - py_max xs) / real (length xs)))"
  by (simp add: spectrum_def Let_def bool_index_self)

lemma spectrum_frequencies:
  assumes "xs \<noteq> []"
  shows "(\<forall>f\<in>set (fst (spectrum xs ys win)). fl_pos f) \<and>
         (if py_min xs < py_max xs
          then sorted_wrt (\<lambda>a b. fl_less b a) (fst (spectrum xs ys win)) \<and>
               (\<forall>f\<in>set (fst (spectrum xs ys win)). \<exists>v. f = Fin v)
          else \<forall>f\<in>set (fst (spectrum xs ys win)). f = PInf)"
proof -
  define n where "n = length xs"
  define d where "d = (py_min xs - py_max xs) / real n"
  from assms have n: "0 < n" by (simp add: n_def)
  then have nd: "real n * d = py_min xs - py_max xs" by (simp add: d_def)
  have s: "fst (spectrum xs ys win) = filter fl_pos (fftfreq n d)"
    by (simp add: spectrum_fst n_def d_def)
  have pos: "\<forall>f\<in>set (fst (spectrum xs ys win)). fl_pos f" by (simp add: s)
  show ?thesis
  proof (cases "py_min xs < py_max xs")
    case True
    then have neg: "real n * d < 0" by (simp add: nd)
    have e: "fst (spectrum xs ys win) =
               map (\<lambda>j. Fin (real_of_int (int j - int (n div 2)) * (1 / (real n * d)))) [0..<n div 2]"
      unfolding s by (rule fftfreq_pos_neg_spacing [OF neg])
    have v: "1 / (real n * d) < 0" using neg by simp
    have "sorted_wrt (\<lambda>a b. fl_less b a) (fst (spectrum xs ys win))"
      unfolding e by (rule decreasing_bins [OF v])
    moreover have "\<forall>f\<in>set (fst (spectrum xs ys win)). \<exists>v. f = Fin v"
      unfolding e by auto
    ultimately show ?thesis using pos True by simp
  next
    case False
    with py_min_le_max [OF assms] have "real n * d = 0" by (simp add: nd)
    then have "\<forall>f\<in>set (fst (spectrum xs ys win)). f = PInf"
      unfolding s using fftfreq_pos_zero_spacing by blast
    then show ?thesis using pos False by simp
  qed
qed

lemma ramp_set:
  assumes "u \<in> set (rev (linspace (l + real w * dt) l w))"
  shows "\<exists>j<w. u = l + real (j + 1) * dt"
proof -
  from assms obtain j where j: "j < w" and "u = rev (linspace (l + real w * dt) l w) ! j"
    by (metis in_set_conv_nth length_rev linspace_length)
  with ramp_nth [OF j, of l dt] show ?thesis by auto
qed

lemma zeropadding_spread:
  assumes ne: "xs \<noteq> []" and z: "zeropadding xs ys = Inr (xs', ys')"
  shows "xs' \<noteq> [] \<and> (py_min xs' < py_max xs' \<longleftrightarrow> py_min xs < py_max xs)"
proof -
  define w where "w = 2 ^ ceil_log2 (length xs) - length xs"
  define dt where "dt = (if 1 < length xs then xs ! 1 - xs ! 0 else 0)"
  from z zeropadding_nonempty [OF ne, of ys]
  have xs': "xs' = xs @ rev (linspace (last xs + real w * dt) (last xs) w)"
    by (simp add: w_def dt_def)
  then have ne': "xs' \<noteq> []" using ne by simp
  have sub: "set xs \<subseteq> set xs'" by (auto simp: xs')
  have "(\<forall>t\<in>set xs'. t = hd xs') \<longleftrightarrow> (\<forall>t\<in>set xs. t = hd xs)"
  proof
    assume a: "\<forall>t\<in>set xs'. t = hd xs'"
    have "hd xs' = hd xs" using ne by (simp add: xs')
    with a sub show "\<forall>t\<in>set xs. t = hd xs" by auto
  next
    assume a: "\<forall>t\<in>set xs. t = hd xs"
    have h: "hd xs' = hd xs" using ne by (simp add: xs')
    have l: "last xs = hd xs" using a ne by simp
    have "dt = 0"
    proof (cases "1 < length xs")
      case True
      then have "xs ! 1 \<in> set xs" "xs ! 0 \<in> set xs" by (simp_all only: nth_mem)
      with a have "xs ! 1 = xs ! 0" by metis
      then show ?thesis by (simp add: dt_def)
    next
      case False
      then show ?thesis by (simp add: dt_def)
    qed
    show "\<forall>t\<in>set xs'. t = hd xs'"
    proof
      fix t assume "t \<in> set xs'"
      then consider "t \<in> set xs" | "t \<in> set (rev (linspace (last xs + real w * dt) (last xs) w))"
        by (auto simp: xs')
      then show "t = hd xs'"
      proof cases
        case 1
        with a h show ?thesis by simp
      next
        case 2
        from ramp_set [OF 2] \<open>dt = 0\<close> have "t = last xs" by auto
        with l h show ?thesis by simp
      qed
    qed
  qed
  then have "py_min xs' = py_max xs' \<longleftrightarrow> py_min xs = py_max xs"
    by (simp add: py_min_eq_max_iff [OF ne] py_min_eq_max_iff [OF ne'])
  with py_min_le_max [OF ne] py_min_le_max [OF ne'] have "py_min xs' < py_max xs' \<longleftrightarrow> py_min xs < py_max xs"
    by linarith
  with ne' show ?thesis by simp
qed

lemma calc_fft_nonempty:
  assumes "fst (range_filter d r) \<noteq> []"
  shows "\<exists>xs ys. (if z then zeropadding (fst (range_filter d r)) (snd (range_filter d r)) 
                   else Inr (range_filter d r)) = Inr (xs, ys) \<and> xs \<noteq> [] \<and>
           (py_min xs < py_max xs \<longleftrightarrow> py_min (fst (range_filter d r)) < py_max (fst (range_filter d r))) \<and>
           calc_fft (Some d) r w z =
             Inr (map fst d, map snd d, fst (spectrum xs ys (calc_window w ys)),
                  snd (spectrum xs ys (calc_window w ys)))"
proof (cases z)
  case True
  from zeropadding_nonempty [OF assms, of "snd (range_filter d r)"]
  obtain xs ys where p: "zeropadding (fst (range_filter d r)) (snd (range_filter d r)) = Inr (xs, ys)"
    by blast
  from zeropadding_spread [OF assms p] have "xs \<noteq> []"
    and "py_min xs < py_max xs \<longleftrightarrow> py_min (fst (range_filter d r)) < py_max (fst (range_filter d r))"
    by simp_all
  with p True show ?thesis by (simp add: calc_fft_def Let_def case_prod_beta)
next
  case False
  with assms show ?thesis
    by (cases "range_filter d r") (simp add: calc_fft_def Let_def case_prod_beta)
qed

lemma calc_fft_empty:
  assumes "fst (range_filter d r) = []"
  shows "calc_fft (Some d) r w z =
           (if z then Inl IndexError else Inr (map fst d, map snd d, [], []))"
proof (cases z)
  case True
  with assms show ?thesis by (simp add: calc_fft_def Let_def zeropadding_empty)
next
  case False
  with assms show ?thesis
    by (cases "range_filter d r") (simp add: calc_fft_def Let_def)
qed

lemma demo_filter_all: "range_filter demo_data (- 1, 5) = ([0, 1, 2, 3, 4], [0, 1, 0, - 1, 0])"
  by (simp add: range_filter_eq demo_data_def)

lemma demo_filter_some: "range_filter demo_data (1 / 2, 7 / 2) = ([1, 2, 3], [1, 0, - 1])"
  by (simp add: range_filter_eq demo_data_def)

lemma demo_filter_none: "range_filter demo_data (0, 0) = ([], [])"
  by (simp add: range_filter_eq demo_data_def)

lemma demo_frequencies:
  "fst (spectrum [0, 1, 2, 3, 4] ys win) = [Fin (1 / 2), Fin (1 / 4)]"
proof -
  have l: "length [0, 1, 2, 3, 4 :: real] = 5" by simp
  have mn: "py_min [0, 1, 2, 3, 4] = 0" and mx: "py_max [0, 1, 2, 3, 4] = 4"
    by (simp_all add: py_min_def py_max_def)
  have "fst (spectrum [0, 1, 2, 3, 4] ys win) = filter fl_pos (fftfreq 5 ((0 - 4) / real 5))"
    unfolding spectrum_fst l mn mx ..
  also have "\<dots> =
          map (\<lambda>j. Fin (real_of_int (int j - int (5 div 2)) * (1 / (real 5 * ((0 - 4) / real 5)))))
            [0..<5 div 2]"
    by (rule fftfreq_pos_neg_spacing) simp
  also have "\<dots> = [Fin (1 / 2), Fin (1 / 4)]"
    by (simp add: upt_conv_Cons)
  finally show ?thesis .
qed

lemma demo_calc_fft:
  "\<exists>sys. calc_fft (Some demo_data) (- 1, 5) w False =
     Inr ([0, 1, 2, 3, 4], [0, 1, 0, - 1, 0], [Fin (1 / 2), Fin (1 / 4)], sys)"
proof -
  have ne: "fst (range_filter demo_data (- 1, 5)) \<noteq> []" by (simp add: demo_filter_all)
  from calc_fft_nonempty [OF ne, of False w] obtain xs ys where
    xy: "Inr (range_filter demo_data (- 1, 5)) = (Inr (xs, ys) :: error + _)" and
    c: "calc_fft (Some demo_data) (- 1, 5) w False =
          Inr (map fst demo_data, map snd demo_data, fst (spectrum xs ys (calc_window w ys)),
               snd (spectrum xs ys (calc_window w ys)))"
    by (simp only: if_False) blast
  from xy have xs: "xs = [0, 1, 2, 3, 4]" by (simp add: demo_filter_all)
  have cols: "map fst demo_data = [0, 1, 2, 3, 4]" "map snd demo_data = [0, 1, 0, - 1, 0]"
    by (simp_all add: demo_data_def)
  show ?thesis
    by (rule exI [of _ "snd (spectrum xs ys (calc_window w ys))"])
       (simp only: c cols xs demo_frequencies)
qed

subsection \<open>What the engine returns\<close>

text \<open>
  Claim C1, as amended. For every loaded dataset and every selection range with at
  least one sample inside, \<open>calc_fft\<close> returns, and the spectrum frequencies it returns
  are all strictly positive; they are finite and strictly decreasing in output order
  when the selected times are not all equal, and all \<open>inf\<close> when they are. (The sample
  spacing handed to \<open>fftfreq\<close> is \<open>(min(xs) - max(xs)) / N\<close>, which is negative, so the
  bins kept by \<open>spec_xs > 0\<close> are the second half of the axis, from the largest
  frequency down.)
\<close>

theorem calc_fft_frequencies:
  assumes "fst (range_filter d r) \<noteq> []"
  shows "\<exists>txs tys sxs sys. calc_fft (Some d) r w z = Inr (txs, tys, sxs, sys) \<and>
     (\<forall>f\<in>set sxs. fl_pos f) \<and>
     (if py_min (fst (range_filter d r)) < py_max (fst (range_filter d r))
      then sorted_wrt (\<lambda>a b. fl_less b a) sxs \<and> (\<forall>f\<in>set sxs. \<exists>v. f = Fin v)
      else \<forall>f\<in>set sxs. f = PInf)"
proof -
  from calc_fft_nonempty [OF assms, of z w] obtain xs ys where
    ne: "xs \<noteq> []" and
    sp: "py_min xs < py_max xs \<longleftrightarrow>
           py_min (fst (range_filter d r)) < py_max (fst (range_filter d r))" and
    c: "calc_fft (Some d) r w z =
          Inr (map fst d, map snd d, fst (spectrum xs ys (calc_window w ys)),
               snd (spectrum xs ys (calc_window w ys)))"
    by blast
  from spectrum_frequencies [OF ne, of ys "calc_window w ys"] sp
  have "(\<forall>f\<in>set (fst (spectrum xs ys (calc_window w ys))). fl_pos f) \<and>
     (if py_min (fst (range_filter d r)) < py_max (fst (range_filter d r))
      then sorted_wrt (\<lambda>a b. fl_less b a) (fst (spectrum xs ys (calc_window w ys))) \<and>
           (\<forall>f\<in>set (fst (spectrum xs ys (calc_window w ys))). \<exists>v. f = Fin v)
      else \<forall>f\<in>set (fst (spectrum xs ys (calc_window w ys))). f = PInf)"
    by simp
  with c show ?thesis by blast
qed

text \<open>
  Two inputs: the five samples, whose frequencies come out in decreasing order, and three
  samples at one and the same time, whose single frequency is \<open>inf\<close>.
\<close>

theorem calc_fft_frequencies_witness:
  "fst (range_filter demo_data (- 1, 5)) = [0, 1, 2, 3, 4] \<and>
   (\<exists>txs tys sxs sys.
      calc_fft (Some demo_data) (- 1, 5) ''boxcar'' False = Inr (txs, tys, sxs, sys) \<and>
      sorted_wrt (\<lambda>a b. fl_less b a) sxs) \<and>
   fst (range_filter [(1, 0), (1, 1), (1, 2)] (0, 2)) = [1, 1, 1] \<and>
   (\<exists>txs tys sxs sys.
      calc_fft (Some [(1, 0), (1, 1), (1, 2)]) (0, 2) ''boxcar'' False = Inr (txs, tys, sxs, sys) \<and>
      sxs = [PInf])"
proof -
  have f: "fst (range_filter demo_data (- 1, 5)) = [0, 1, 2, 3, 4]"
    by (simp add: demo_filter_all)
  then have ne: "fst (range_filter demo_data (- 1, 5)) \<noteq> []" by simp
  have lt: "py_min (fst (range_filter demo_data (- 1, 5))) <
            py_max (fst (range_filter demo_data (- 1, 5)))"
    by (simp add: f py_min_def py_max_def)
  have g: "fst (range_filter [(1, 0), (1, 1), (1, 2)] (0, 2)) = [1, 1, 1]"
    by (simp add: range_filter_eq)
  then have ne': "fst (range_filter [(1, 0), (1, 1), (1, 2)] (0, 2)) \<noteq> []" by simp
  have eq: "\<not> py_min (fst (range_filter [(1, 0), (1, 1), (1, 2)] (0, 2))) <
              py_max (fst (range_filter [(1, 0), (1, 1), (1, 2)] (0, 2)))"
    by (simp add: g py_min_def py_max_def)
  from calc_fft_frequencies [OF ne, of "''boxcar''" False] lt
  have a: "\<exists>txs tys sxs sys.
      calc_fft (Some demo_data) (- 1, 5) ''boxcar'' False = Inr (txs, tys, sxs, sys) \<and>
      sorted_wrt (\<lambda>a b. fl_less b a) sxs"
    by (simp only: if_True) blast
  have l: "length [1, 1, 1 :: real] = 3" by simp
  have "fst (spectrum [1, 1, 1] ys win) = filter fl_pos (fftfreq 3 ((1 - 1) / real 3))" for ys win
    unfolding spectrum_fst l by (simp add: py_min_def py_max_def)
  then have sp: "fst (spectrum [1, 1, 1] ys win) = [PInf]" for ys win
    by (simp add: fftfreq_def fl_recip_def upt_conv_Cons)
  from calc_fft_nonempty [OF ne', of False "''boxcar''"] g
  have c: "\<exists>txs tys sys.
      calc_fft (Some [(1, 0), (1, 1), (1, 2)]) (0, 2) ''boxcar'' False =
        Inr (txs, tys, [PInf], sys)"
    by (auto simp: range_filter_eq) (metis sp prod.collapse)
  from calc_fft_frequencies [OF ne', of "''boxcar''" False] eq c
  have b: "\<exists>txs tys sxs sys.
      calc_fft (Some [(1, 0), (1, 1), (1, 2)]) (0, 2) ''boxcar'' False = Inr (txs, tys, sxs, sys) \<and>
      sxs = [PInf]"
    by (simp only: if_False) blast
  from f a g b show ?thesis by blast
qed

text \<open>
  The claim as written fails on the five samples with the range (-1, 5): the
  frequencies come out as 0.5, 0.25, the larger one first.
\<close>

theorem calc_fft_frequencies_counterexample:
  "map_sum id (fst \<circ> snd \<circ> snd) (calc_fft (Some demo_data) (- 1, 5) ''boxcar'' False) =
     Inr [Fin (1 / 2), Fin (1 / 4)] \<and>
   \<not> sorted_wrt fl_less [Fin (1 / 2), Fin (1 / 4)]"
proof -
  from demo_calc_fft [of "''boxcar''"] obtain sys where
    "calc_fft (Some demo_data) (- 1, 5) ''boxcar'' False =
       Inr ([0, 1, 2, 3, 4], [0, 1, 0, - 1, 0], [Fin (1 / 2), Fin (1 / 4)], sys)" ..
  then show ?thesis by simp
qed

text \<open>
  Claim C2. The claim says that the engine never raises for an empty filtered series,
  whatever the zeropad flag. With the flag off \<open>calc_fft\<close> returns an empty spectrum; with
  the flag on \<open>zeropadding\<close> is called on the empty series and its \<open>xs[-1]\<close> raises
  IndexError before the \<open>if N:\<close> test is reached. The theorem evaluates both on the five
  samples with the initial range (0, 0).
\<close>

theorem calc_fft_zeropad_empty_raises:
  "calc_fft (Some demo_data) (0, 0) ''hanning'' True = Inl IndexError \<and>
   calc_fft (Some demo_data) (0, 0) ''hanning'' False =
     Inr ([0, 1, 2, 3, 4], [0, 1, 0, - 1, 0], [], [])"
proof -
  have "fst (range_filter demo_data (0, 0)) = []" by (simp add: demo_filter_none)
  then show ?thesis by (simp add: calc_fft_empty) (simp add: demo_data_def)
qed

text \<open>
  Claim C4, as amended. For every loaded dataset, selection range, window kind and
  zeropad flag, \<open>calc_fft\<close> either raises (zeropad on and no sample in the range) or
  returns as its time-domain sequences the two full columns of the dataset: neither
  filtered nor padded nor windowed.
\<close>

theorem calc_fft_time_series:
  "if z \<and> fst (range_filter d r) = []
   then calc_fft (Some d) r w z = Inl IndexError
   else \<exists>sxs sys. calc_fft (Some d) r w z = Inr (map fst d, map snd d, sxs, sys)"
proof (cases "fst (range_filter d r) = []")
  case True
  then show ?thesis by (simp add: calc_fft_empty)
next
  case False
  from calc_fft_nonempty [OF False, of z w] have
    "\<exists>sxs sys. calc_fft (Some d) r w z = Inr (map fst d, map snd d, sxs, sys)" by blast
  with False show ?thesis by simp
qed

theorem calc_fft_time_series_witness:
  "\<exists>sxs sys. calc_fft (Some demo_data) (1 / 2, 7 / 2) ''hanning'' True =
     Inr ([0, 1, 2, 3, 4], [0, 1, 0, - 1, 0], sxs, sys)"
  using calc_fft_time_series [of True demo_data "(1 / 2, 7 / 2)" "''hanning''"]
  by (simp add: demo_filter_some) (simp add: demo_data_def)

text \<open>
  The claim as written fails on the five samples with the range (0.5, 3.5): three
  samples lie inside, and all five come back.
\<close>

theorem calc_fft_time_series_counterexample:
  "range_filter demo_data (1 / 2, 7 / 2) = ([1, 2, 3], [1, 0, - 1]) \<and>
   map_sum id (\<lambda>out. (fst out, fst (snd out)))
     (calc_fft (Some demo_data) (1 / 2, 7 / 2) ''boxcar'' False) =
     Inr ([0, 1, 2, 3, 4], [0, 1, 0, - 1, 0])"
proof -
  have "fst (range_filter demo_data (1 / 2, 7 / 2)) \<noteq> []" by (simp add: demo_filter_some)
  from calc_fft_nonempty [OF this, of False "''boxcar''"] obtain sxs sys where
    "calc_fft (Some demo_data) (1 / 2, 7 / 2) ''boxcar'' False =
       Inr (map fst demo_data, map snd demo_data, sxs, sys)" by blast
  then show ?thesis by (simp add: demo_filter_some) (simp add: demo_data_def)
qed

section \<open>The session and its files\<close>

subsection \<open>Splitting a file name\<close>









subsection \<open>Handlers\<close>

lemma press_enter:
  "press e chosen ''enter'' s =
     Inr (s\<lparr>spec_data := map (\<lambda>(f, m). (fl_div f 1000000, m)) (spec_data s),
            written := written s @
              [\<lparr>path = fst (splitext (filename s)) @ ''FFT'' @ snd (splitext (filename s)),
                header = ''Range of window: '' @ show_range e (fft_range s) @ [CHR 0x0A] @
                         ''Windowfunction: '' @ window_button s @ [CHR 0x0A] @
                         ''Zeropadding: '' @ str_bool (zeropad_button s),
                rows = map (\<lambda>(f, m). (fl_div f 1000000, m)) (spec_data s)\<rparr>]\<rparr>)"
  by (simp add: press_def save_data_def Let_def case_prod_beta)

lemma update_plot_Inr:
  assumes "calc_fft (data s) (fft_range s) (window_button s) (zeropad_button s) =
             Inr (xs, ys, sxs, sys)"
  shows "update_plot s =
           Inr (s\<lparr>window := window_button s, zeropad := zeropad_button s,
                  spec_data := zip sxs sys, ax0_line := (xs, ys), ax1_line := (sxs, sys)\<rparr>)"
  using assms by (simp add: update_plot_def Let_def)


lemma calc_fft_unpadded_degenerate:
  "calc_fft d (0, 0) w False =
     Inr (case d of None \<Rightarrow> [] | Some r \<Rightarrow> map fst r, case d of None \<Rightarrow> [] | Some r \<Rightarrow> map snd r, [], [])"
proof (cases d)
  case None
  then show ?thesis by (simp add: calc_fft_def)
next
  case (Some r)
  have "filter (\<lambda>(t, a). (0::real) < t \<and> t < 0) r = []"
    by (auto simp: filter_empty_conv)
  then have "fst (range_filter r (0, 0)) = []" by (simp add: range_filter_eq)
  then show ?thesis by (simp add: Some calc_fft_empty)
qed

lemma bool_index_length:
  "length a = length m \<Longrightarrow> length (bool_index a m) = length (filter id m)"
  by (induction a m rule: list_induct2) (simp_all add: bool_index_def)

lemma fft_length: "length (fft a) = length a"
  by (simp add: fft_def Let_def)

lemma spectrum_lengths:
  assumes "xs \<noteq> []" and "length ys = length xs"
  shows "length (snd (spectrum xs ys (calc_window w ys))) =
         length (fst (spectrum xs ys (calc_window w ys)))"
proof -
  let ?sx = "fftfreq (length xs) ((py_min xs - py_max xs) / real (length xs))"
  let ?sy = "fft (map2 (*) ys (calc_window w ys))"
  have lx: "length ?sx = length xs" using assms(1) by (simp add: fftfreq_length)
  have ly: "length ?sy = length xs" using assms(2) by (simp add: fft_length calc_window_length)
  have "length (bool_index ?sy (map fl_pos ?sx)) = length (filter id (map fl_pos ?sx))"
    by (rule bool_index_length) (simp add: lx ly)
  moreover have "length (bool_index ?sx (map fl_pos ?sx)) = length (filter id (map fl_pos ?sx))"
    by (rule bool_index_length) simp
  ultimately show ?thesis by (simp add: spectrum_def Let_def)
qed

lemma range_filter_lengths: "length (snd (range_filter d r)) = length (fst (range_filter d r))"
  by (cases r) (simp add: range_filter_eq)

lemma calc_fft_lengths:
  assumes "calc_fft d r w z = Inr (txs, tys, sxs, sys)"
  shows "length sys = length sxs"
proof (cases d)
  case None
  with assms show ?thesis by (simp add: calc_fft_def)
next
  case (Some rows)
  show ?thesis
  proof (cases "fst (range_filter rows r) = []")
    case True
    with assms Some show ?thesis by (simp add: calc_fft_empty split: if_splits)
  next
    case False
    from calc_fft_nonempty [OF False, of z w] obtain xs ys where
      p: "(if z then zeropadding (fst (range_filter rows r)) (snd (range_filter rows r))
           else Inr (range_filter rows r)) = Inr (xs, ys)" and ne: "xs \<noteq> []" and
      c: "calc_fft (Some rows) r w z =
            Inr (map fst rows, map snd rows, fst (spectrum xs ys (calc_window w ys)),
                 snd (spectrum xs ys (calc_window w ys)))"
      by blast
    have "length ys = length xs"
    proof (cases z)
      case True
      with p zeropadding_nonempty [OF False, of "snd (range_filter rows r)"]
      show ?thesis by (auto simp: linspace_length range_filter_lengths)
    next
      case False
      with p have "range_filter rows r = (xs, ys)" by simp
      with range_filter_lengths [of rows r] show ?thesis by simp
    qed
    from spectrum_lengths [OF ne this, of w] c assms Some show ?thesis by simp
  qed
qed

lemma fft_timesignal_start:
  assumes "get_file e chosen = Inr (d, f)"
  shows "\<exists>s0. fft_timesignal e chosen = Inr s0 \<and> data s0 = d \<and> filename s0 = f \<and>
           fft_range s0 = (0, 0) \<and> spec_data s0 = [] \<and> window_button s0 = ''hanning'' \<and>
           \<not> zeropad_button s0 \<and> written s0 = []"
  using assms
  by (simp add: fft_timesignal_def update_plot_def Let_def calc_fft_unpadded_degenerate)

lemma demo_get_file: "get_file demo_env ''sig.csv'' = Inr (Some demo_data, ''sig.csv'')"
  by (simp add: get_file_def demo_env_def)

lemma demo_selected:
  "\<exists>s1. start_then demo_env ''sig.csv'' [onselect (- 1) 5] = Inr s1 \<and>
      data s1 = Some demo_data \<and> filename s1 = ''sig.csv'' \<and> fft_range s1 = (- 1, 5) \<and>
      window_button s1 = ''hanning'' \<and> \<not> zeropad_button s1 \<and> written s1 = [] \<and>
      map fst (spec_data s1) = [Fin (1 / 2), Fin (1 / 4)]"
proof -
  from fft_timesignal_start [OF demo_get_file] obtain s0 where
    s0: "fft_timesignal demo_env ''sig.csv'' = Inr s0" "data s0 = Some demo_data"
      "filename s0 = ''sig.csv''" "window_button s0 = ''hanning''" "\<not> zeropad_button s0"
      "written s0 = []"
    by blast
  from demo_calc_fft [of "''hanning''"] obtain sys where
    c: "calc_fft (Some demo_data) (- 1, 5) ''hanning'' False =
         Inr ([0, 1, 2, 3, 4], [0, 1, 0, - 1, 0], [Fin (1 / 2), Fin (1 / 4)], sys)" ..
  from calc_fft_lengths [OF c] have len: "length sys = 2" by simp
  have "onselect (- 1) 5 s0 =
          Inr (s0\<lparr>fft_range := (- 1, 5), window := ''hanning'', zeropad := False,
                  spec_data := zip [Fin (1 / 2), Fin (1 / 4)] sys,
                  ax0_line := ([0, 1, 2, 3, 4], [0, 1, 0, - 1, 0]),
                  ax1_line := ([Fin (1 / 2), Fin (1 / 4)], sys)\<rparr>)"
    unfolding onselect_def using c s0 by (subst update_plot_Inr) simp_all
  moreover have "map fst (zip [Fin (1 / 2), Fin (1 / 4)] sys) = [Fin (1 / 2), Fin (1 / 4)]"
    using len by (simp add: map_fst_zip_take)
  ultimately show ?thesis using s0 by (simp add: start_then_def)
qed

lemma run_events_snoc:
  "run_events (hs @ [h]) s =
     (case run_events hs s of Inl err \<Rightarrow> Inl err | Inr s' \<Rightarrow> h s')"
  by (induction hs arbitrary: s) (simp_all split: sum.splits)

lemma start_then_snoc:
  "start_then e chosen hs = Inr s \<Longrightarrow> start_then e chosen (hs @ [h]) = h s"
  by (auto simp: start_then_def run_events_snoc split: sum.splits)



subsection \<open>Loading and saving\<close>




text \<open>
  Claim C3. The claim says that saving changes nothing in the session. \<open>save_data\<close>
  divides the frequency column of the array it is handed in place, and \<open>press\<close> hands it
  the global \<open>spec_data\<close>: after one save the stored frequencies 0.5 and 0.25 are
  0.0000005 and 0.00000025, and a second save writes them divided by \<open>10\<^sup>1\<^sup>2\<close>.
\<close>

theorem save_changes_spectrum:
  "map_sum id (map fst \<circ> spec_data)
     (start_then demo_env ''sig.csv'' [onselect (- 1) 5]) =
     Inr [Fin (1 / 2), Fin (1 / 4)] \<and>
   map_sum id (map fst \<circ> spec_data)
     (start_then demo_env ''sig.csv'' [onselect (- 1) 5, press demo_env [] ''enter'']) =
     Inr [Fin (1 / 2000000), Fin (1 / 4000000)] \<and>
   map_sum id (map (map fst \<circ> rows) \<circ> written)
     (start_then demo_env ''sig.csv''
        [onselect (- 1) 5, press demo_env [] ''enter'', press demo_env [] ''enter'']) =
     Inr [[Fin (1 / 2000000), Fin (1 / 4000000)],
          [Fin (1 / 2000000000000), Fin (1 / 4000000000000)]]"
proof -
  from demo_selected obtain s1 where
    s1: "start_then demo_env ''sig.csv'' [onselect (- 1) 5] = Inr s1" "written s1 = []"
      "map fst (spec_data s1) = [Fin (1 / 2), Fin (1 / 4)]"
    by auto
  obtain s2 where s2: "press demo_env [] ''enter'' s1 = Inr s2"
    and d2: "spec_data s2 = map (\<lambda>(f, m). (fl_div f 1000000, m)) (spec_data s1)"
    and w2: "map rows (written s2) = [spec_data s2]"
    by (simp add: press_enter s1)
  obtain s3 where s3: "press demo_env [] ''enter'' s2 = Inr s3"
    and w3: "map rows (written s3) =
               [spec_data s2, map (\<lambda>(f, m). (fl_div f 1000000, m)) (spec_data s2)]"
    using w2 by (simp add: press_enter)
  have m: "map fst (map (\<lambda>(f, m). (fl_div f 1000000, m)) l) = map (\<lambda>f. fl_div f 1000000) (map fst l)"
    for l :: spectrum_data
    by (simp add: case_prod_beta comp_def)
  have f2: "map fst (spec_data s2) = [Fin (1 / 2000000), Fin (1 / 4000000)]"
    unfolding d2 m s1(3) by simp
  have r2: "start_then demo_env ''sig.csv'' ([onselect (- 1) 5] @ [press demo_env [] ''enter'']) =
            Inr s2"
    using start_then_snoc [OF s1(1)] s2 by simp
  have r3: "start_then demo_env ''sig.csv''
              ([onselect (- 1) 5, press demo_env [] ''enter''] @ [press demo_env [] ''enter'']) =
            Inr s3"
    using start_then_snoc [OF r2 [simplified]] s3 by simp
  have "map (map fst \<circ> rows) (written s3) = map (map fst) (map rows (written s3))" by simp
  also have "\<dots> = [[Fin (1 / 2000000), Fin (1 / 4000000)],
                   [Fin (1 / 2000000000000), Fin (1 / 4000000000000)]]"
    unfolding w3 list.map m f2 by simp
  finally show ?thesis using s1 r2 r3 f2 by simp
qed

subsection \<open>The file written\<close>





end
